theory Spec2Isabelle
  imports Main "HOL-Library.Sublist"
begin

section \<open>The words terminator of \<open>camel/terminator/response_terminator.py\<close>\<close>

text \<open>
  \<open>ResponseWordsTerminator\<close> watches the messages of a conversation for a dictionary of
  words, counts for each word the messages that contain it, and latches a termination
  flag once the counts reach the configured thresholds.  The class is modelled by a
  record of its attributes; each method takes the record and returns the updated one,
  together with its result or the exception it raises.
\<close>

subsection \<open>Strings\<close>

text \<open>
  Python strings are modelled as \<^typ>\<open>string\<close>, restricted to ASCII: \<open>str.lower\<close> maps
  the letters \<open>A\<close> .. \<open>Z\<close> to \<open>a\<close> .. \<open>z\<close> and leaves every other character alone.
\<close>

definition lower_char :: "char \<Rightarrow> char" where
  "lower_char c =
     (case map_of (zip ''ABCDEFGHIJKLMNOPQRSTUVWXYZ'' ''abcdefghijklmnopqrstuvwxyz'') c of
        Some d \<Rightarrow> d
      | None \<Rightarrow> c)"

definition lower :: "string \<Rightarrow> string" where
  "lower s = map lower_char s"

text \<open>The operator \<open>in\<close> on two strings: the left one occurs in the right one as a
  contiguous piece.\<close>

fun str_in :: "string \<Rightarrow> string \<Rightarrow> bool" where
  "str_in w [] = (w = [])"
| "str_in w (c # cs) = (prefix w (c # cs) \<or> str_in w cs)"

text \<open>\<open>str\<close> of an integer, as the f-strings of the source print it: decimal digits,
  with a minus sign for a negative number.\<close>

fun str_nat :: "nat \<Rightarrow> string" where
  "str_nat n =
     (if n < 10 then [''0123456789'' ! n]
      else str_nat (n div 10) @ [''0123456789'' ! (n mod 10)])"

declare str_nat.simps [simp del]

definition str_int :: "int \<Rightarrow> string" where
  "str_int i = (if i < 0 then CHR ''-'' # str_nat (nat (- i)) else str_nat (nat i))"

text \<open>\<open>"\n".join(reasons)\<close>.\<close>

fun join_lines :: "string list \<Rightarrow> string" where
  "join_lines [] = []"
| "join_lines [r] = r"
| "join_lines (r # r' # rs) = r @ [CHR 0x0A] @ join_lines (r' # rs)"

subsection \<open>The data\<close>

text \<open>A message; the terminator reads nothing but its \<open>content\<close>.\<close>

record BaseMessage =
  content :: string

text \<open>
  Modelled from the spec: the enumeration \<open>camel.typing.TerminationMode\<close>, which the
  source imports.  It has the values \<open>ANY\<close> and \<open>ALL\<close>; \<open>OtherMode\<close> stands for any
  other value passed as \<open>mode\<close> (Python does not check the annotation), and carries
  the text that \<open>str\<close> gives for it.  \<open>ALL\<close> is written \<open>ALL_mode\<close>, since \<open>ALL\<close> is a
  binder of HOL.
\<close>

datatype TerminationMode = ANY | ALL_mode | OtherMode string

fun mode_str :: "TerminationMode \<Rightarrow> string" where
  "mode_str ANY = ''TerminationMode.ANY''"
| "mode_str ALL_mode = ''TerminationMode.ALL''"
| "mode_str (OtherMode s) = s"

text \<open>The exceptions: the \<open>ValueError\<close>s the source raises, with their messages, and the
  \<open>KeyError\<close> of a dictionary lookup with a missing key.\<close>

datatype error = ValueError string | KeyError string

text \<open>
  A Python \<open>dict\<close> keeps its keys in insertion order, so both dictionaries are
  association lists; a \<open>dict\<close> never holds a key twice, which is \<open>dict_ok\<close>.
\<close>

type_synonym str_int_dict = "(string \<times> int) list"

definition dict_ok :: "str_int_dict \<Rightarrow> bool" where
  "dict_ok d = distinct (map fst d)"

text \<open>\<open>d[k]\<close> on a plain \<open>dict\<close>.\<close>

definition dict_get :: "str_int_dict \<Rightarrow> string \<Rightarrow> error + int" where
  "dict_get d k = (case map_of d k of None \<Rightarrow> Inl (KeyError k) | Some v \<Rightarrow> Inr v)"

text \<open>
  \<open>d[k] += 1\<close> on a \<open>defaultdict(int)\<close>: a key that is present keeps its place and
  its value grows by one; a missing key is appended with the value \<open>0 + 1\<close>.
\<close>

fun dict_incr :: "str_int_dict \<Rightarrow> string \<Rightarrow> str_int_dict" where
  "dict_incr [] k = [(k, 0 + 1)]"
| "dict_incr ((k', v) # d) k =
     (if k' = k then (k', v + 1) # d else (k', v) # dict_incr d k)"

text \<open>The running counter of a word: the value stored for it, and 0 when there is
  none (the default of \<open>defaultdict(int)\<close>).\<close>

definition counter :: "str_int_dict \<Rightarrow> string \<Rightarrow> int" where
  "counter d k = (case map_of d k of None \<Rightarrow> 0 | Some v \<Rightarrow> v)"

text \<open>
  The attributes of the object.  \<open>terminated\<close> and \<open>termination_reason\<close> are the
  attributes \<open>_terminated\<close> and \<open>_termination_reason\<close> of the base class, and
  \<open>word_count_dict\<close> is \<open>_word_count_dict\<close>.
\<close>

record ResponseWordsTerminator =
  words_dict :: str_int_dict
  case_sensitive :: bool
  mode :: TerminationMode
  word_count_dict :: str_int_dict
  terminated :: bool
  termination_reason :: "string option"

subsection \<open>Construction\<close>

text \<open>The loop of \<open>_validate\<close> over the keys of \<open>words_dict\<close>.\<close>

fun validate_words :: "str_int_dict \<Rightarrow> string list \<Rightarrow> error + unit" where
  "validate_words wd [] = Inr ()"
| "validate_words wd (word # words) =
     (case dict_get wd word of
        Inl e \<Rightarrow> Inl e
      | Inr threshold \<Rightarrow>
          if threshold \<le> 0 then
            Inl (ValueError (''Threshold for word `'' @ word @ ''` should be larger than 0, got `''
                             @ str_int threshold @ ''`''))
          else validate_words wd words)"

definition validate :: "ResponseWordsTerminator \<Rightarrow> error + unit" where
  "validate self =
     (if length (words_dict self) = 0 then Inl (ValueError ''`words_dict` cannot be empty'')
      else validate_words (words_dict self) (map fst (words_dict self)))"

text \<open>
  Modelled from the spec: the constructor of the base class \<open>ResponseTerminator\<close>, which
  the source calls as \<open>super().__init__()\<close> and which is not in the source file.  It
  sets the latch, \<open>_terminated\<close> and \<open>_termination_reason\<close>, to (false, none).
\<close>

definition base_init :: "bool \<times> string option" where
  "base_init = (False, None)"

text \<open>
  \<open>__init__\<close>: the attributes are set, then \<open>_validate\<close> runs, and an error it raises
  is the outcome of the construction.  The caller passes all three arguments (the
  source has the defaults \<open>False\<close> and \<open>ANY\<close> for the last two).
\<close>

definition init :: "str_int_dict \<Rightarrow> bool \<Rightarrow> TerminationMode \<Rightarrow> error + ResponseWordsTerminator" where
  "init wd cs m =
     (let self = \<lparr>words_dict = wd, case_sensitive = cs, mode = m,
                  word_count_dict = [],
                  terminated = fst base_init, termination_reason = snd base_init\<rparr>
      in case validate self of Inl e \<Rightarrow> Inl e | Inr _ \<Rightarrow> Inr self)"

subsection \<open>\<open>is_terminated\<close> and \<open>reset\<close>\<close>

text \<open>The inner loop of the counting, over the messages, for one word.\<close>

fun count_messages ::
  "bool \<Rightarrow> string \<Rightarrow> string \<Rightarrow> BaseMessage list \<Rightarrow> str_int_dict \<Rightarrow> str_int_dict" where
  "count_messages cs word special_word [] cnt = cnt"
| "count_messages cs word special_word (message # messages) cnt =
     (let content' = (if cs then content message else lower (content message))
      in count_messages cs word special_word messages
           (if str_in special_word content' then dict_incr cnt word else cnt))"

text \<open>The outer loop, over the keys of \<open>words_dict\<close>.\<close>

fun count_words ::
  "bool \<Rightarrow> string list \<Rightarrow> BaseMessage list \<Rightarrow> str_int_dict \<Rightarrow> str_int_dict" where
  "count_words cs [] messages cnt = cnt"
| "count_words cs (word # words) messages cnt =
     (let special_word = (if cs then word else lower word)
      in count_words cs words messages (count_messages cs word special_word messages cnt))"

text \<open>The reason string of one word that reached its threshold.\<close>

definition reason_str :: "string \<Rightarrow> int \<Rightarrow> int \<Rightarrow> string" where
  "reason_str word v threshold =
     ''Word `'' @ word @ ''` appears '' @ str_int v
     @ '' times in response which has reached termination threshold ''
     @ str_int threshold @ ''.''"

text \<open>The loop over the items of \<open>_word_count_dict\<close>, with \<open>num_reached\<close> and \<open>reasons\<close>
  as accumulators.\<close>

fun collect_reached ::
  "str_int_dict \<Rightarrow> str_int_dict \<Rightarrow> nat \<Rightarrow> string list \<Rightarrow> error + (nat \<times> string list)" where
  "collect_reached wd [] num_reached reasons = Inr (num_reached, reasons)"
| "collect_reached wd ((word, v) # items) num_reached reasons =
     (case dict_get wd word of
        Inl e \<Rightarrow> Inl e
      | Inr threshold \<Rightarrow>
          if v \<ge> threshold then
            collect_reached wd items (num_reached + 1) (reasons @ [reason_str word v threshold])
          else collect_reached wd items num_reached reasons)"

text \<open>
  \<open>is_terminated\<close> returns the object as the call leaves it, and either the pair it
  returns or the exception it raises.  The counters are written before anything can
  be raised, so the object of an \<open>Inl\<close> result has them updated.
\<close>

definition is_terminated ::
  "ResponseWordsTerminator \<Rightarrow> BaseMessage list
     \<Rightarrow> ResponseWordsTerminator \<times> (error + bool \<times> string option)" where
  "is_terminated self messages =
     (if terminated self then (self, Inr (True, termination_reason self))
      else
        let self1 = self\<lparr>word_count_dict :=
                      count_words (case_sensitive self) (map fst (words_dict self)) messages
                        (word_count_dict self)\<rparr>
        in case collect_reached (words_dict self1) (word_count_dict self1) 0 [] of
             Inl e \<Rightarrow> (self1, Inl e)
           | Inr (num_reached, reasons) \<Rightarrow>
               (case mode self1 of
                  ANY \<Rightarrow>
                    let self2 = (if num_reached > 0
                                 then self1\<lparr>terminated := True,
                                            termination_reason := Some (join_lines reasons)\<rparr>
                                 else self1)
                    in (self2, Inr (terminated self2, termination_reason self2))
                | ALL_mode \<Rightarrow>
                    let self2 = (if num_reached \<ge> length (words_dict self1)
                                 then self1\<lparr>terminated := True,
                                            termination_reason := Some (join_lines reasons)\<rparr>
                                 else self1)
                    in (self2, Inr (terminated self2, termination_reason self2))
                | OtherMode s \<Rightarrow>
                    (self1, Inl (ValueError (''Unsupported termination mode `''
                                             @ mode_str (mode self1) @ ''`'')))))"

definition reset :: "ResponseWordsTerminator \<Rightarrow> ResponseWordsTerminator" where
  "reset self = self\<lparr>terminated := False, termination_reason := None, word_count_dict := []\<rparr>"

subsection \<open>Histories of calls\<close>

text \<open>
  The object lives through a sequence of calls of its two methods.  A call of
  \<open>is_terminated\<close> that raises leaves the object as it was at the \<open>raise\<close>.
\<close>

datatype call = IsTerminated "BaseMessage list" | Reset

fun do_call :: "ResponseWordsTerminator \<Rightarrow> call \<Rightarrow> ResponseWordsTerminator" where
  "do_call self (IsTerminated messages) = fst (is_terminated self messages)"
| "do_call self Reset = reset self"

definition run_calls :: "ResponseWordsTerminator \<Rightarrow> call list \<Rightarrow> ResponseWordsTerminator" where
  "run_calls self calls = foldl do_call self calls"

subsection \<open>The vocabulary of the specification\<close>

text \<open>
  The definitions of this subsection are not code of the source: they name what the
  specification speaks of, so that the theorems can relate the functions above to it.
\<close>

text \<open>A word or a content, lower-cased unless the terminator is case sensitive.\<close>

definition normalized :: "bool \<Rightarrow> string \<Rightarrow> string" where
  "normalized cs x = (if cs then x else lower x)"

text \<open>The number of messages of a batch that contain a word.\<close>

definition messages_with :: "bool \<Rightarrow> string \<Rightarrow> BaseMessage list \<Rightarrow> nat" where
  "messages_with cs word messages =
     length (filter (\<lambda>m. sublist (normalized cs word) (normalized cs (content m))) messages)"

text \<open>A word has reached its threshold: it is watched, and its running counter is at
  least its threshold.\<close>

definition reached :: "str_int_dict \<Rightarrow> str_int_dict \<Rightarrow> string \<Rightarrow> bool" where
  "reached wd cnt w = (case map_of wd w of None \<Rightarrow> False | Some t \<Rightarrow> t \<le> counter cnt w)"

text \<open>The threshold of a watched word.\<close>

definition threshold_of :: "str_int_dict \<Rightarrow> string \<Rightarrow> int" where
  "threshold_of wd w = (case map_of wd w of None \<Rightarrow> 0 | Some t \<Rightarrow> t)"

text \<open>The words that have reached their thresholds, in the order of the counter
  dictionary, and their reason strings.\<close>

definition reached_words :: "str_int_dict \<Rightarrow> str_int_dict \<Rightarrow> string list" where
  "reached_words wd cnt = filter (reached wd cnt) (map fst cnt)"

definition reasons_of :: "str_int_dict \<Rightarrow> str_int_dict \<Rightarrow> string list" where
  "reasons_of wd cnt =
     map (\<lambda>w. reason_str w (counter cnt w) (threshold_of wd w)) (reached_words wd cnt)"

text \<open>The counters of an object after the counting loops have run on a batch.\<close>

definition counted :: "ResponseWordsTerminator \<Rightarrow> BaseMessage list \<Rightarrow> str_int_dict" where
  "counted s msgs =
     count_words (case_sensitive s) (map fst (words_dict s)) msgs (word_count_dict s)"

text \<open>The object that a successful construction returns.\<close>

definition fresh :: "str_int_dict \<Rightarrow> bool \<Rightarrow> TerminationMode \<Rightarrow> ResponseWordsTerminator" where
  "fresh wd cs m =
     \<lparr>words_dict = wd, case_sensitive = cs, mode = m,
      word_count_dict = [], terminated = False, termination_reason = None\<rparr>"

text \<open>
  Strings joined by newlines: the first string, and then every further string with a
  newline character before it.  This says what the specification asks of the reason;
  it is stated apart from \<open>join_lines\<close>, which is what the code computes.
\<close>

definition newline_joined :: "string list \<Rightarrow> string" where
  "newline_joined rs =
     (case rs of [] \<Rightarrow> [] | r # rs' \<Rightarrow> r @ concat (map (\<lambda>x. CHR 0x0A # x) rs'))"

definition threshold_message :: "string \<Rightarrow> int \<Rightarrow> string" where
  "threshold_message w t =
     ''Threshold for word `'' @ w @ ''` should be larger than 0, got `'' @ str_int t @ ''`''"

text \<open>
  \<open>reaches wd cs m calls s\<close>: the constructor, called with the dictionary \<open>wd\<close>, the
  flag \<open>cs\<close> and the mode \<open>m\<close>, returns an object, and \<open>s\<close> is that object after the
  calls \<open>calls\<close>.  These are the states an object of the class can be in.
\<close>

definition reaches ::
  "str_int_dict \<Rightarrow> bool \<Rightarrow> TerminationMode \<Rightarrow> call list \<Rightarrow> ResponseWordsTerminator \<Rightarrow> bool" where
  "reaches wd cs m calls s \<longleftrightarrow>
     dict_ok wd \<and> (case init wd cs m of Inl e \<Rightarrow> False | Inr s0 \<Rightarrow> s = run_calls s0 calls)"

subsection \<open>The invariant\<close>

text \<open>The configuration passed the validation of the constructor.\<close>

definition config_ok :: "ResponseWordsTerminator \<Rightarrow> bool" where
  "config_ok s \<longleftrightarrow>
     words_dict s \<noteq> [] \<and> dict_ok (words_dict s) \<and> (\<forall>(w, t) \<in> set (words_dict s). 0 < t)"

text \<open>The counter dictionary is a dictionary, and counts watched words only.\<close>

definition counts_ok :: "ResponseWordsTerminator \<Rightarrow> bool" where
  "counts_ok s \<longleftrightarrow>
     dict_ok (word_count_dict s) \<and> fst ` set (word_count_dict s) \<subseteq> fst ` set (words_dict s)"

text \<open>The condition under which the mode of the object asks for termination.\<close>

definition aggregation_met :: "ResponseWordsTerminator \<Rightarrow> bool" where
  "aggregation_met s =
     (case mode s of
        ANY \<Rightarrow> (\<exists>w \<in> fst ` set (words_dict s). reached (words_dict s) (word_count_dict s) w)
      | ALL_mode \<Rightarrow> (\<forall>w \<in> fst ` set (words_dict s). reached (words_dict s) (word_count_dict s) w)
      | OtherMode x \<Rightarrow> False)"

definition latch_ok :: "ResponseWordsTerminator \<Rightarrow> bool" where
  "latch_ok s =
     (if terminated s then (\<exists>r. termination_reason s = Some r \<and> r \<noteq> [])
      else termination_reason s = None \<and> \<not> aggregation_met s)"

definition state_ok :: "ResponseWordsTerminator \<Rightarrow> bool" where
  "state_ok s \<longleftrightarrow> config_ok s \<and> counts_ok s \<and> latch_ok s"

subsection \<open>Example objects\<close>

text \<open>A terminator that waits for two messages with \<open>bye\<close>: after one such message,
  and after two.\<close>

definition bye_reason :: string where
  "bye_reason =
     ''Word `bye` appears 2 times in response which has reached termination threshold 2.''"

definition bye_counting :: ResponseWordsTerminator where
  "bye_counting =
     \<lparr>words_dict = [(''bye'', 2)], case_sensitive = False, mode = ANY,
      word_count_dict = [(''bye'', 1)], terminated = False, termination_reason = None\<rparr>"

definition bye_latched :: ResponseWordsTerminator where
  "bye_latched =
     \<lparr>words_dict = [(''bye'', 2)], case_sensitive = False, mode = ANY,
      word_count_dict = [(''bye'', 2)], terminated = True, termination_reason = Some bye_reason\<rparr>"

text \<open>A terminator that waits for both \<open>bye\<close> and \<open>stop\<close>: after a message with
  \<open>stop\<close>, and after a further one with \<open>bye\<close>.\<close>

definition both_reason :: string where
  "both_reason =
     ''Word `stop` appears 1 times in response which has reached termination threshold 1.''
     @ [CHR 0x0A] @
     ''Word `bye` appears 1 times in response which has reached termination threshold 1.''"

definition both_counting :: ResponseWordsTerminator where
  "both_counting =
     \<lparr>words_dict = [(''bye'', 1), (''stop'', 1)], case_sensitive = False, mode = ALL_mode,
      word_count_dict = [(''stop'', 1)], terminated = False, termination_reason = None\<rparr>"

definition both_latched :: ResponseWordsTerminator where
  "both_latched =
     \<lparr>words_dict = [(''bye'', 1), (''stop'', 1)], case_sensitive = False, mode = ALL_mode,
      word_count_dict = [(''stop'', 1), (''bye'', 1)], terminated = True,
      termination_reason = Some both_reason\<rparr>"

text \<open>A terminator that waits for one of \<open>bye\<close> and \<open>stop\<close>, after one message that
  has both words.\<close>

definition either_reason :: string where
  "either_reason =
     ''Word `bye` appears 1 times in response which has reached termination threshold 1.''
     @ [CHR 0x0A] @
     ''Word `stop` appears 1 times in response which has reached termination threshold 1.''"

definition either_latched :: ResponseWordsTerminator where
  "either_latched =
     \<lparr>words_dict = [(''bye'', 1), (''stop'', 1)], case_sensitive = False, mode = ANY,
      word_count_dict = [(''bye'', 1), (''stop'', 1)], terminated = True,
      termination_reason = Some either_reason\<rparr>"

section \<open>Properties\<close>

subsection \<open>Strings and dictionaries\<close>

lemma str_in_sublist: "str_in w c = sublist w c"
  by (induction c) (auto simp: sublist_Cons_right)

lemma dict_get_key: "k \<in> set (map fst d) \<Longrightarrow> dict_get d k = Inr (threshold_of d k)"
  by (auto simp: dict_get_def threshold_of_def map_of_eq_None_iff split: option.splits)

lemma dict_get_entry: "dict_ok d \<Longrightarrow> (k, v) \<in> set d \<Longrightarrow> dict_get d k = Inr v"
  by (simp add: dict_get_def dict_ok_def)

lemma map_of_key: "k \<in> fst ` set d \<Longrightarrow> map_of d k = Some (threshold_of d k)"
  by (cases "map_of d k") (auto simp: threshold_of_def map_of_eq_None_iff)

lemma counter_entry: "dict_ok d \<Longrightarrow> (k, v) \<in> set d \<Longrightarrow> counter d k = v"
  by (simp add: counter_def dict_ok_def)

lemma counter_absent: "k \<notin> set (map fst d) \<Longrightarrow> counter d k = 0"
  by (simp add: counter_def map_of_eq_None_iff[THEN iffD2])

lemma keys_dict_incr:
  "map fst (dict_incr d k) = (if k \<in> set (map fst d) then map fst d else map fst d @ [k])"
  by (induction d) force+

lemma set_keys_dict_incr: "fst ` set (dict_incr d k) = insert k (fst ` set d)"
  using arg_cong[OF keys_dict_incr[of d k], of set] by (simp split: if_splits) blast

lemma counter_dict_incr:
  "counter (dict_incr d k) k' = (if k' = k then counter d k + 1 else counter d k')"
  by (induction d) (auto simp: counter_def)

lemma dict_ok_dict_incr: "dict_ok d \<Longrightarrow> dict_ok (dict_incr d k)"
  by (simp add: dict_ok_def keys_dict_incr)

subsection \<open>The counting loops\<close>

lemma count_messages_Nil [simp]: "count_messages cs w sw [] cnt = cnt"
  by simp

lemma counter_count_messages:
  "counter (count_messages cs w (normalized cs w) msgs cnt) k =
     (if k = w then counter cnt w + int (messages_with cs w msgs) else counter cnt k)"
  by (induction msgs arbitrary: cnt)
     (auto simp: messages_with_def normalized_def str_in_sublist counter_dict_incr Let_def)

lemma keys_count_messages:
  "fst ` set (count_messages cs w sw msgs cnt) \<subseteq> insert w (fst ` set cnt)"
proof (induction msgs arbitrary: cnt)
  case Nil
  then show ?case by auto
next
  case (Cons m msgs)
  show ?case
    using Cons[of cnt] Cons[of "dict_incr cnt w"]
    unfolding count_messages.simps Let_def set_keys_dict_incr
    by (simp split: if_splits)
qed

lemma dict_ok_count_messages: "dict_ok cnt \<Longrightarrow> dict_ok (count_messages cs w sw msgs cnt)"
  by (induction msgs arbitrary: cnt) (auto simp: Let_def dict_ok_dict_incr)

lemma count_words_no_messages: "count_words cs words [] cnt = cnt"
  by (induction words) auto

lemma counter_count_words:
  "distinct words \<Longrightarrow>
   counter (count_words cs words msgs cnt) k =
     counter cnt k + (if k \<in> set words then int (messages_with cs k msgs) else 0)"
proof (induction words arbitrary: cnt)
  case Nil
  then show ?case by simp
next
  case (Cons w words)
  have "counter (count_words cs (w # words) msgs cnt) k =
        counter (count_messages cs w (normalized cs w) msgs cnt) k
          + (if k \<in> set words then int (messages_with cs k msgs) else 0)"
    using Cons by (simp add: normalized_def)
  then show ?case using Cons.prems by (auto simp: counter_count_messages)
qed

lemma keys_count_words:
  "fst ` set (count_words cs words msgs cnt) \<subseteq> set words \<union> fst ` set cnt"
proof (induction words arbitrary: cnt)
  case Nil
  then show ?case by simp
next
  case (Cons w words)
  define cnt1 where "cnt1 = count_messages cs w (if cs then w else lower w) msgs cnt"
  have "fst ` set (count_words cs words msgs cnt1) \<subseteq> set words \<union> fst ` set cnt1"
    by (rule Cons)
  moreover have "fst ` set cnt1 \<subseteq> insert w (fst ` set cnt)"
    unfolding cnt1_def by (rule keys_count_messages)
  moreover have "count_words cs (w # words) msgs cnt = count_words cs words msgs cnt1"
    by (simp add: cnt1_def)
  ultimately show ?case by auto
qed

lemma dict_ok_count_words: "dict_ok cnt \<Longrightarrow> dict_ok (count_words cs words msgs cnt)"
  by (induction words arbitrary: cnt) (auto simp: Let_def dict_ok_count_messages)

lemma counted_ok:
  assumes "counts_ok s"
  shows "dict_ok (counted s msgs)" and "fst ` set (counted s msgs) \<subseteq> fst ` set (words_dict s)"
proof -
  show "dict_ok (counted s msgs)"
    using assms by (simp add: counted_def counts_ok_def dict_ok_count_words)
  show "fst ` set (counted s msgs) \<subseteq> fst ` set (words_dict s)"
    using assms keys_count_words[of "case_sensitive s" "map fst (words_dict s)" msgs "word_count_dict s"]
    by (auto simp: counted_def counts_ok_def)
qed

lemma counted_counter:
  assumes "dict_ok (words_dict s)" and "w \<in> fst ` set (words_dict s)"
  shows "counter (counted s msgs) w =
         counter (word_count_dict s) w + int (messages_with (case_sensitive s) w msgs)"
  using assms counter_count_words[of "map fst (words_dict s)" "case_sensitive s" msgs "word_count_dict s" w]
  by (simp add: counted_def dict_ok_def)

lemma counted_counter_other:
  assumes "dict_ok (words_dict s)" and "w \<notin> fst ` set (words_dict s)"
  shows "counter (counted s msgs) w = counter (word_count_dict s) w"
  using assms counter_count_words[of "map fst (words_dict s)" "case_sensitive s" msgs "word_count_dict s" w]
  by (simp add: counted_def dict_ok_def)

subsection \<open>The loop over the counters\<close>

lemma collect_reached_acc:
  "fst ` set items \<subseteq> fst ` set wd \<Longrightarrow>
   collect_reached wd items n rs =
     Inr (n + length (filter (\<lambda>(w, v). threshold_of wd w \<le> v) items),
          rs @ map (\<lambda>(w, v). reason_str w v (threshold_of wd w))
                 (filter (\<lambda>(w, v). threshold_of wd w \<le> v) items))"
proof (induction items arbitrary: n rs)
  case Nil
  then show ?case by simp
next
  case (Cons item items)
  obtain w v where item: "item = (w, v)" by (cases item)
  from Cons.prems item have "w \<in> set (map fst wd)" by auto
  then have get: "dict_get wd w = Inr (threshold_of wd w)" by (rule dict_get_key)
  from Cons.prems have sub: "fst ` set items \<subseteq> fst ` set wd" by auto
  show ?case
    by (simp add: item get Cons.IH[OF sub])
qed

lemma reached_item:
  assumes "dict_ok cnt" and "fst ` set cnt \<subseteq> fst ` set wd" and "(w, v) \<in> set cnt"
  shows "reached wd cnt w = (threshold_of wd w \<le> v)"
proof -
  from assms have "w \<in> fst ` set wd" by force
  then have "map_of wd w = Some (threshold_of wd w)" by (rule map_of_key)
  moreover have "counter cnt w = v" using assms(1,3) by (rule counter_entry)
  ultimately show ?thesis by (simp add: reached_def)
qed

lemma reached_words_items:
  assumes "dict_ok cnt" and "fst ` set cnt \<subseteq> fst ` set wd"
  shows "map fst (filter (\<lambda>(w, v). threshold_of wd w \<le> v) cnt) = reached_words wd cnt"
proof -
  have "filter (\<lambda>(w, v). threshold_of wd w \<le> v) cnt = filter (reached wd cnt \<circ> fst) cnt"
    by (rule filter_cong) (auto simp: reached_item[OF assms])
  then show ?thesis by (simp add: reached_words_def filter_map)
qed

lemma reasons_items:
  assumes "dict_ok cnt" and "fst ` set cnt \<subseteq> fst ` set wd"
  shows "map (\<lambda>(w, v). reason_str w v (threshold_of wd w))
           (filter (\<lambda>(w, v). threshold_of wd w \<le> v) cnt) = reasons_of wd cnt"
proof -
  have "map (\<lambda>(w, v). reason_str w v (threshold_of wd w))
          (filter (\<lambda>(w, v). threshold_of wd w \<le> v) cnt)
      = map ((\<lambda>w. reason_str w (counter cnt w) (threshold_of wd w)) \<circ> fst)
          (filter (\<lambda>(w, v). threshold_of wd w \<le> v) cnt)"
    by (rule map_cong) (auto simp: counter_entry[OF assms(1)])
  also have "\<dots> = reasons_of wd cnt"
    unfolding reasons_of_def reached_words_items[OF assms, symmetric] by simp
  finally show ?thesis .
qed

lemma collect_reached_ok:
  assumes "dict_ok cnt" and "fst ` set cnt \<subseteq> fst ` set wd"
  shows "collect_reached wd cnt 0 [] = Inr (length (reached_words wd cnt), reasons_of wd cnt)"
  using collect_reached_acc[OF assms(2), of 0 "[]"]
        reasons_items[OF assms] arg_cong[OF reached_words_items[OF assms], of length]
  by simp

lemma distinct_reached_words: "dict_ok cnt \<Longrightarrow> distinct (reached_words wd cnt)"
  by (simp add: reached_words_def dict_ok_def)

lemma reached_watched: "reached wd cnt w \<Longrightarrow> w \<in> fst ` set wd"
  by (auto simp: reached_def split: option.splits dest: map_of_SomeD intro: rev_image_eqI)

lemma reached_counted:
  assumes "\<forall>(w, t) \<in> set wd. 0 < t" and "reached wd cnt w"
  shows "w \<in> fst ` set cnt"
proof (rule ccontr)
  assume "w \<notin> fst ` set cnt"
  then have "counter cnt w = 0" by (simp add: counter_absent)
  moreover from assms(2) obtain t where "map_of wd w = Some t" "t \<le> counter cnt w"
    by (auto simp: reached_def split: option.splits)
  moreover from this assms(1) have "0 < t" by (auto dest: map_of_SomeD)
  ultimately show False by simp
qed

lemma set_reached_words:
  "\<forall>(w, t) \<in> set wd. 0 < t \<Longrightarrow> set (reached_words wd cnt) = {w. reached wd cnt w}"
  using reached_counted[of wd cnt] by (auto simp: reached_words_def)

lemma reached_words_Nil_iff:
  "\<forall>(w, t) \<in> set wd. 0 < t \<Longrightarrow>
   reached_words wd cnt = [] \<longleftrightarrow> (\<forall>w \<in> fst ` set wd. \<not> reached wd cnt w)"
  using set_reached_words[of wd cnt] reached_watched[of wd cnt]
  by (metis (mono_tags, lifting) empty_iff mem_Collect_eq set_empty empty_Collect_eq)

lemma reached_words_nonempty_iff:
  "\<forall>(w, t) \<in> set wd. 0 < t \<Longrightarrow>
   reached_words wd cnt \<noteq> [] \<longleftrightarrow> (\<exists>w \<in> fst ` set wd. reached wd cnt w)"
  using reached_words_Nil_iff[of wd cnt] by blast

lemma reached_words_all_iff:
  assumes "\<forall>(w, t) \<in> set wd. 0 < t" and "dict_ok wd" and "dict_ok cnt"
  shows "length wd \<le> length (reached_words wd cnt) \<longleftrightarrow> (\<forall>w \<in> fst ` set wd. reached wd cnt w)"
    and "length (reached_words wd cnt) \<le> length wd"
proof -
  let ?R = "set (reached_words wd cnt)" and ?K = "fst ` set wd"
  have R: "?R = {w. reached wd cnt w}" using assms(1) by (rule set_reached_words)
  have sub: "?R \<subseteq> ?K" using reached_watched[of wd cnt] by (auto simp: R)
  have cR: "card ?R = length (reached_words wd cnt)"
    using distinct_reached_words[OF assms(3)] by (rule distinct_card)
  have cK: "card ?K = length wd"
    using assms(2) distinct_card[of "map fst wd"] by (simp add: dict_ok_def)
  show le: "length (reached_words wd cnt) \<le> length wd"
    using card_mono[OF _ sub] by (simp add: cR cK)
  show "length wd \<le> length (reached_words wd cnt) \<longleftrightarrow> (\<forall>w \<in> ?K. reached wd cnt w)"
  proof
    assume "length wd \<le> length (reached_words wd cnt)"
    then have "card ?K \<le> card ?R" by (simp add: cR cK)
    with sub have "?R = ?K" by (intro card_seteq) auto
    then show "\<forall>w \<in> ?K. reached wd cnt w" using R by auto
  next
    assume "\<forall>w \<in> ?K. reached wd cnt w"
    then have "?K \<subseteq> ?R" by (auto simp: R)
    then have "card ?K \<le> card ?R" by (intro card_mono) auto
    then show "length wd \<le> length (reached_words wd cnt)" by (simp add: cR cK)
  qed
qed

lemma length_reached_watched:
  assumes "\<forall>(w, t) \<in> set wd. 0 < t" and "dict_ok wd" and "dict_ok cnt"
  shows "length (filter (reached wd cnt) (map fst wd)) = length (reached_words wd cnt)"
proof -
  have "set (filter (reached wd cnt) (map fst wd)) = {w. reached wd cnt w}"
    using reached_watched[of wd cnt] by auto
  then have "set (filter (reached wd cnt) (map fst wd)) = set (reached_words wd cnt)"
    by (simp add: set_reached_words[OF assms(1)])
  moreover have "distinct (filter (reached wd cnt) (map fst wd))"
    using assms(2) by (simp add: dict_ok_def)
  moreover have "distinct (reached_words wd cnt)"
    using assms(3) by (rule distinct_reached_words)
  ultimately show ?thesis by (metis distinct_card)
qed

lemma reason_str_nonempty: "reason_str w v t \<noteq> []"
  by (simp add: reason_str_def)

lemma join_lines_nonempty: "rs \<noteq> [] \<Longrightarrow> hd rs \<noteq> [] \<Longrightarrow> join_lines rs \<noteq> []"
  by (induction rs rule: join_lines.induct) auto

lemma join_reasons_nonempty:
  "reached_words wd cnt \<noteq> [] \<Longrightarrow> join_lines (reasons_of wd cnt) \<noteq> []"
  by (rule join_lines_nonempty) (simp_all add: reasons_of_def hd_map reason_str_nonempty)

subsection \<open>One call of \<open>is_terminated\<close>\<close>

lemma is_terminated_latched:
  "terminated s \<Longrightarrow> is_terminated s msgs = (s, Inr (True, termination_reason s))"
  by (simp add: is_terminated_def)

lemma is_terminated_unlatched:
  assumes "counts_ok s" and "\<not> terminated s"
  shows "is_terminated s msgs =
    (let wd = words_dict s; cnt = counted s msgs;
         r = Some (join_lines (reasons_of wd cnt));
         s1 = s\<lparr>word_count_dict := cnt\<rparr>;
         s2 = s1\<lparr>terminated := True, termination_reason := r\<rparr>
     in case mode s of
          ANY \<Rightarrow> if reached_words wd cnt \<noteq> [] then (s2, Inr (True, r))
                 else (s1, Inr (False, termination_reason s))
        | ALL_mode \<Rightarrow> if length wd \<le> length (reached_words wd cnt) then (s2, Inr (True, r))
                      else (s1, Inr (False, termination_reason s))
        | OtherMode x \<Rightarrow>
            (s1, Inl (ValueError (''Unsupported termination mode `'' @ x @ ''`''))))"
proof -
  have "collect_reached (words_dict s) (counted s msgs) 0 [] =
        Inr (length (reached_words (words_dict s) (counted s msgs)),
             reasons_of (words_dict s) (counted s msgs))"
    using counted_ok[OF assms(1)] by (rule collect_reached_ok)
  then show ?thesis
    using assms(2)
    by (cases "mode s") (simp_all add: is_terminated_def counted_def[symmetric] Let_def)
qed

lemma is_terminated_True:
  assumes "is_terminated s msgs = (s', Inr (True, r))"
  shows "terminated s'" and "termination_reason s' = r"
  using assms
  by (auto simp: is_terminated_def Let_def
           split: if_splits sum.splits prod.splits TerminationMode.splits)

lemma unlatched_counts:
  assumes "counts_ok s" and "\<not> terminated s"
  shows "word_count_dict (fst (is_terminated s msgs)) = counted s msgs"
  unfolding is_terminated_unlatched[OF assms]
  by (simp add: Let_def split: TerminationMode.splits)

lemma is_terminated_config:
  "words_dict (fst (is_terminated s msgs)) = words_dict s"
  "case_sensitive (fst (is_terminated s msgs)) = case_sensitive s"
  "mode (fst (is_terminated s msgs)) = mode s"
  by (auto simp: is_terminated_def Let_def split: sum.splits TerminationMode.splits prod.splits)

subsection \<open>The invariant holds in every state of an object\<close>

lemma config_ok_is_terminated: "config_ok s \<Longrightarrow> config_ok (fst (is_terminated s msgs))"
  by (simp add: config_ok_def is_terminated_config)

lemma counts_ok_is_terminated:
  assumes "counts_ok s"
  shows "counts_ok (fst (is_terminated s msgs))"
proof (cases "terminated s")
  case True
  then show ?thesis using assms by (simp add: is_terminated_latched)
next
  case False
  have "word_count_dict (fst (is_terminated s msgs)) = counted s msgs"
    unfolding is_terminated_unlatched[OF assms False]
    by (simp add: Let_def split: TerminationMode.splits)
  then show ?thesis
    using counted_ok[OF assms, of msgs] by (simp add: counts_ok_def is_terminated_config)
qed

lemma latch_ok_is_terminated:
  assumes "config_ok s" and "counts_ok s" and "latch_ok s"
  shows "latch_ok (fst (is_terminated s msgs))"
proof (cases "terminated s")
  case True
  then show ?thesis using assms by (simp add: is_terminated_latched)
next
  case False
  let ?wd = "words_dict s" and ?cnt = "counted s msgs"
  have pos: "\<forall>(w, t) \<in> set ?wd. 0 < t" and wd: "dict_ok ?wd" and ne: "?wd \<noteq> []"
    using assms(1) by (simp_all add: config_ok_def)
  have cnt: "dict_ok ?cnt" using counted_ok[OF assms(2)] by simp
  have none: "termination_reason s = None" using assms(3) False by (simp add: latch_ok_def)
  note any = reached_words_Nil_iff[OF pos, of ?cnt]
  note all = reached_words_all_iff(1)[OF pos wd cnt]
  have nonempty: "reached_words ?wd ?cnt \<noteq> [] \<Longrightarrow> join_lines (reasons_of ?wd ?cnt) \<noteq> []"
    by (rule join_reasons_nonempty)
  have all_ne: "length ?wd \<le> length (reached_words ?wd ?cnt) \<Longrightarrow> reached_words ?wd ?cnt \<noteq> []"
    using ne by auto
  show ?thesis
  proof (cases "mode s")
    case ANY
    then show ?thesis
      unfolding is_terminated_unlatched[OF assms(2) False]
      using False none any nonempty
      by (simp add: Let_def latch_ok_def aggregation_met_def)
  next
    case ALL_mode
    then show ?thesis
      unfolding is_terminated_unlatched[OF assms(2) False]
      using False none all nonempty all_ne
      by (simp add: Let_def latch_ok_def aggregation_met_def)
  next
    case (OtherMode x)
    then show ?thesis
      unfolding is_terminated_unlatched[OF assms(2) False]
      using False none
      by (simp add: Let_def latch_ok_def aggregation_met_def)
  qed
qed

lemma state_ok_is_terminated: "state_ok s \<Longrightarrow> state_ok (fst (is_terminated s msgs))"
  by (simp add: state_ok_def config_ok_is_terminated counts_ok_is_terminated latch_ok_is_terminated)

lemma not_reached_empty:
  assumes "\<forall>(w, t) \<in> set wd. 0 < t" shows "\<not> reached wd [] w"
  using reached_counted[OF assms, of "[]" w] by auto

lemma state_ok_fresh:
  assumes "config_ok s" and "word_count_dict s = []" and "\<not> terminated s"
    and "termination_reason s = None"
  shows "state_ok s"
proof -
  have pos: "\<forall>(w, t) \<in> set (words_dict s). 0 < t" and ne: "words_dict s \<noteq> []"
    using assms(1) by (simp_all add: config_ok_def)
  from ne have "fst ` set (words_dict s) \<noteq> {}" by simp
  then have "\<not> aggregation_met s"
    using not_reached_empty[OF pos]
    by (cases "mode s") (auto simp: aggregation_met_def assms(2))
  then show ?thesis
    using assms by (simp add: state_ok_def counts_ok_def dict_ok_def latch_ok_def)
qed

lemma reset_config:
  "words_dict (reset s) = words_dict s"
  "case_sensitive (reset s) = case_sensitive s"
  "mode (reset s) = mode s"
  by (simp_all add: reset_def)

lemma state_ok_reset: "state_ok s \<Longrightarrow> state_ok (reset s)"
  by (rule state_ok_fresh) (simp_all add: state_ok_def config_ok_def reset_def)

lemma state_ok_do_call: "state_ok s \<Longrightarrow> state_ok (do_call s c)"
  by (cases c) (simp_all add: state_ok_is_terminated state_ok_reset)

lemma do_call_config:
  "words_dict (do_call s c) = words_dict s"
  "case_sensitive (do_call s c) = case_sensitive s"
  "mode (do_call s c) = mode s"
  by (cases c; simp add: is_terminated_config reset_config)+

lemma run_calls_ok:
  "state_ok s \<Longrightarrow> state_ok (run_calls s calls)"
  unfolding run_calls_def by (induction calls arbitrary: s) (simp_all add: state_ok_do_call)

lemma run_calls_config:
  "words_dict (run_calls s calls) = words_dict s"
  "case_sensitive (run_calls s calls) = case_sensitive s"
  "mode (run_calls s calls) = mode s"
  unfolding run_calls_def by (induction calls arbitrary: s; simp add: do_call_config)+

lemma run_calls_latched:
  "terminated s \<Longrightarrow> Reset \<notin> set calls \<Longrightarrow> run_calls s calls = s"
  unfolding run_calls_def
proof (induction calls)
  case Nil
  then show ?case by simp
next
  case (Cons c calls)
  then obtain msgs where "c = IsTerminated msgs" by (cases c) auto
  then show ?case using Cons by (simp add: is_terminated_latched)
qed

subsection \<open>Construction\<close>

lemma validate_words_positive:
  "dict_ok wd \<Longrightarrow> set items \<subseteq> set wd \<Longrightarrow> \<forall>(w, t) \<in> set items. 0 < t \<Longrightarrow>
   validate_words wd (map fst items) = Inr ()"
proof (induction items)
  case Nil
  then show ?case by simp
next
  case (Cons item items)
  obtain w t where item: "item = (w, t)" by (cases item)
  with Cons.prems have "dict_get wd w = Inr t" and "0 < t"
    by (auto intro: dict_get_entry)
  then show ?case using Cons by (simp add: item)
qed

lemma validate_words_first:
  assumes "dict_ok wd" and "set (pre @ (w, t) # post) \<subseteq> set wd"
    and "\<forall>(w', t') \<in> set pre. 0 < t'" and "t \<le> 0"
  shows "validate_words wd (map fst (pre @ (w, t) # post)) = Inl (ValueError (threshold_message w t))"
  using assms(2,3)
proof (induction pre)
  case Nil
  then have "dict_get wd w = Inr t" using assms(1) by (auto intro: dict_get_entry)
  then show ?case using assms(4) by (simp add: threshold_message_def)
next
  case (Cons item pre)
  obtain w' t' where item: "item = (w', t')" by (cases item)
  with Cons.prems have "dict_get wd w' = Inr t'" and "0 < t'"
    using assms(1) by (auto intro: dict_get_entry)
  then show ?case using Cons by (simp add: item)
qed

lemma validate_words_Inr:
  "dict_ok wd \<Longrightarrow> set items \<subseteq> set wd \<Longrightarrow> validate_words wd (map fst items) = Inr u \<Longrightarrow>
   \<forall>(w, t) \<in> set items. 0 < t"
proof (induction items)
  case Nil
  then show ?case by simp
next
  case (Cons item items)
  obtain w t where item: "item = (w, t)" by (cases item)
  with Cons.prems have get: "dict_get wd w = Inr t" by (auto intro: dict_get_entry)
  from Cons.prems(3) have "0 < t" and "validate_words wd (map fst items) = Inr u"
    by (simp_all add: item get split: if_splits)
  then show ?case using Cons by (simp add: item)
qed

lemma init_empty: "init [] cs m = Inl (ValueError ''`words_dict` cannot be empty'')"
  by (simp add: init_def base_init_def validate_def)

lemma init_first:
  assumes "dict_ok wd" and "wd = pre @ (w, t) # post"
    and "\<forall>(w', t') \<in> set pre. 0 < t'" and "t \<le> 0"
  shows "init wd cs m = Inl (ValueError (threshold_message w t))"
proof -
  have "set (pre @ (w, t) # post) \<subseteq> set wd" using assms(2) by simp
  from validate_words_first[OF assms(1) this assms(3,4)]
  have "validate_words wd (map fst wd) = Inl (ValueError (threshold_message w t))"
    using assms(2) by simp
  then show ?thesis using assms(2) by (simp add: init_def base_init_def validate_def)
qed

lemma init_positive:
  assumes "dict_ok wd" and "wd \<noteq> []" and "\<forall>(w, t) \<in> set wd. 0 < t"
  shows "init wd cs m = Inr (fresh wd cs m)"
  using validate_words_positive[OF assms(1) subset_refl assms(3)] assms(2)
  by (simp add: init_def base_init_def validate_def fresh_def)

lemma init_Inr:
  assumes "dict_ok wd" and "init wd cs m = Inr s"
  shows "s = fresh wd cs m" and "wd \<noteq> []" and "\<forall>(w, t) \<in> set wd. 0 < t"
proof -
  from assms(2) show "wd \<noteq> []"
    by (auto simp: init_def base_init_def validate_def)
  from assms(2) show "s = fresh wd cs m"
    by (auto simp: init_def base_init_def fresh_def Let_def split: sum.splits)
  from assms(2) obtain u where "validate_words wd (map fst wd) = Inr u"
    by (auto simp: init_def base_init_def validate_def Let_def split: sum.splits if_splits)
  with assms(1) show "\<forall>(w, t) \<in> set wd. 0 < t"
    by (intro validate_words_Inr) auto
qed

lemma state_ok_init:
  assumes "dict_ok wd" and "init wd cs m = Inr s"
  shows "state_ok s"
  using init_Inr[OF assms] assms(1)
  by (intro state_ok_fresh) (simp_all add: config_ok_def fresh_def)

lemma reachesD:
  assumes "reaches wd cs m calls s"
  shows "state_ok s" and "words_dict s = wd" and "case_sensitive s = cs" and "mode s = m"
    and "init wd cs m = Inr (fresh wd cs m)" and "s = run_calls (fresh wd cs m) calls"
proof -
  from assms obtain s0 where wd: "dict_ok wd" and i: "init wd cs m = Inr s0"
    and s: "s = run_calls s0 calls"
    by (auto simp: reaches_def split: sum.splits)
  note s0 = init_Inr(1)[OF wd i]
  show "state_ok s" unfolding s using state_ok_init[OF wd i] by (rule run_calls_ok)
  show "words_dict s = wd" "case_sensitive s = cs" "mode s = m"
    by (simp_all add: s run_calls_config s0 fresh_def)
  show "init wd cs m = Inr (fresh wd cs m)" using i s0 by simp
  show "s = run_calls (fresh wd cs m) calls" using s s0 by simp
qed

subsection \<open>The example objects\<close>

lemmas eval_defs = reaches_def init_def base_init_def validate_def dict_get_def dict_ok_def run_calls_def
  is_terminated_def Let_def lower_def lower_char_def reason_str_def str_int_def str_nat.simps
  counter_def reached_def threshold_of_def messages_with_def normalized_def reset_def fresh_def
  bye_counting_def bye_latched_def bye_reason_def both_counting_def both_latched_def
  both_reason_def

lemma bye_fresh_reaches:
  "reaches [(''bye'', 2)] False ANY [] (fresh [(''bye'', 2)] False ANY)"
  by (simp add: eval_defs)

lemma bye_counting_reaches:
  "reaches [(''bye'', 2)] False ANY [IsTerminated [\<lparr>content = ''Bye bye''\<rparr>]] bye_counting"
  by (simp add: eval_defs)

lemma bye_latched_reaches:
  "reaches [(''bye'', 2)] False ANY
     [IsTerminated [\<lparr>content = ''Bye bye''\<rparr>], IsTerminated [\<lparr>content = ''ok bye''\<rparr>]]
     bye_latched"
  by (simp add: eval_defs)

lemma both_counting_reaches:
  "reaches [(''bye'', 1), (''stop'', 1)] False ALL_mode [IsTerminated [\<lparr>content = ''STOP''\<rparr>]]
     both_counting"
  by (simp add: eval_defs)

lemma both_latched_reaches:
  "reaches [(''bye'', 1), (''stop'', 1)] False ALL_mode
     [IsTerminated [\<lparr>content = ''STOP''\<rparr>], IsTerminated [\<lparr>content = ''ok bye''\<rparr>]]
     both_latched"
  by (simp add: eval_defs)

lemma either_fresh_reaches:
  "reaches [(''bye'', 1), (''stop'', 1)] False ANY [] (fresh [(''bye'', 1), (''stop'', 1)] False ANY)"
  by (simp add: eval_defs)

lemma other_fresh_reaches:
  "reaches [(''bye'', 1)] False (OtherMode ''TerminationMode.NONE'') []
     (fresh [(''bye'', 1)] False (OtherMode ''TerminationMode.NONE''))"
  by (simp add: eval_defs)

lemma stop_fresh_reaches:
  "reaches [(''stop'', 1)] cs ANY [] (fresh [(''stop'', 1)] cs ANY)"
  by (simp add: eval_defs)

section \<open>The claims\<close>

text \<open>
  C1.  In the mode \<open>ANY\<close>, a call of \<open>is_terminated\<close> on an object that is not latched
  first updates the counters: the counter of every watched word grows by the number of
  messages of the batch that contain it.  The words \<open>ws\<close> that have then reached their
  thresholds are taken in the order of the counter dictionary, each once.  If some
  watched word has reached its threshold, the call sets the latch, with the reason
  strings of all the words of \<open>ws\<close> (each with the word, its count and its threshold)
  joined by newlines as the reason, and returns (true, that reason); otherwise it
  returns (false, none) and the latch stays unset.  The reason is stated with the text
  of each reason string and with \<open>newline_joined\<close>, not with the functions of the code.
\<close>

theorem any_mode_latches:
  assumes "reaches wd cs ANY calls s" and "\<not> terminated s"
  shows "let cnt = count_words cs (map fst wd) msgs (word_count_dict s);
             ws = filter (reached wd cnt) (map fst cnt);
             r = newline_joined
                   (map (\<lambda>w. ''Word `'' @ w @ ''` appears '' @ str_int (counter cnt w)
                              @ '' times in response which has reached termination threshold ''
                              @ str_int (threshold_of wd w) @ ''.'') ws)
         in (\<forall>w \<in> fst ` set wd.
               counter cnt w = counter (word_count_dict s) w + int (messages_with cs w msgs)) \<and>
            set ws = {w. reached wd cnt w} \<and> distinct ws \<and>
            termination_reason s = None \<and>
            is_terminated s msgs =
              (if \<exists>w \<in> fst ` set wd. reached wd cnt w
               then (s\<lparr>word_count_dict := cnt, terminated := True, termination_reason := Some r\<rparr>,
                     Inr (True, Some r))
               else (s\<lparr>word_count_dict := cnt\<rparr>, Inr (False, None)))"
proof -
  note r = reachesD(1-4)[OF assms(1)]
  from r(1) have cfg: "config_ok s" and cnts: "counts_ok s" and latch: "latch_ok s"
    by (simp_all add: state_ok_def)
  have pos: "\<forall>(w, t) \<in> set wd. 0 < t" and wd: "dict_ok wd"
    using cfg by (simp_all add: config_ok_def r(2))
  have cnt_eq: "count_words cs (map fst wd) msgs (word_count_dict s) = counted s msgs"
    by (simp add: counted_def r)
  have none: "termination_reason s = None"
    using latch assms(2) by (simp add: latch_ok_def)
  have 1: "\<forall>w \<in> fst ` set wd.
       counter (counted s msgs) w = counter (word_count_dict s) w + int (messages_with cs w msgs)"
    using counted_counter[of s _ msgs] wd by (simp add: r)
  have 2: "set (reached_words wd (counted s msgs)) = {w. reached wd (counted s msgs) w}"
    using pos by (rule set_reached_words)
  have 3: "distinct (reached_words wd (counted s msgs))"
    using counted_ok(1)[OF cnts] by (rule distinct_reached_words)
  have 4: "is_terminated s msgs =
      (if \<exists>w \<in> fst ` set wd. reached wd (counted s msgs) w
       then (s\<lparr>word_count_dict := counted s msgs, terminated := True,
               termination_reason := Some (join_lines (reasons_of wd (counted s msgs)))\<rparr>,
             Inr (True, Some (join_lines (reasons_of wd (counted s msgs)))))
       else (s\<lparr>word_count_dict := counted s msgs\<rparr>, Inr (False, None)))"
    unfolding is_terminated_unlatched[OF cnts assms(2)]
    using reached_words_nonempty_iff[OF pos, of "counted s msgs"]
    by (simp add: Let_def r none)
  have joined: "newline_joined rs = join_lines rs" for rs
    by (induction rs rule: join_lines.induct) (simp_all add: newline_joined_def)
  show ?thesis
    unfolding cnt_eq Let_def reached_words_def[symmetric] reason_str_def[symmetric]
      reasons_of_def[symmetric] joined
    using 1 2 3 4 none by simp
qed

theorem any_mode_latches_witness:
  "reaches [(''bye'', 2)] False ANY [IsTerminated [\<lparr>content = ''Bye bye''\<rparr>]] bye_counting \<and>
   \<not> terminated bye_counting \<and>
   is_terminated bye_counting [\<lparr>content = ''ok bye''\<rparr>] = (bye_latched, Inr (True, Some bye_reason)) \<and>
   is_terminated bye_counting [\<lparr>content = ''ok''\<rparr>] = (bye_counting, Inr (False, None)) \<and>
   reaches [(''bye'', 1), (''stop'', 1)] False ANY [] (fresh [(''bye'', 1), (''stop'', 1)] False ANY) \<and>
   \<not> terminated (fresh [(''bye'', 1), (''stop'', 1)] False ANY) \<and>
   is_terminated (fresh [(''bye'', 1), (''stop'', 1)] False ANY) [\<lparr>content = ''Stop. Bye!''\<rparr>]
     = (either_latched, Inr (True, Some either_reason)) \<and>
   either_reason =
     ''Word `bye` appears 1 times in response which has reached termination threshold 1.''
     @ [CHR 0x0A] @
     ''Word `stop` appears 1 times in response which has reached termination threshold 1.''"
proof -
  have nt: "\<not> terminated bye_counting" by (simp add: bye_counting_def)
  have nt': "\<not> terminated (fresh [(''bye'', 1), (''stop'', 1)] False ANY)"
    by (simp add: fresh_def)
  have "is_terminated bye_counting [\<lparr>content = ''ok bye''\<rparr>]
          = (bye_latched, Inr (True, Some bye_reason))"
    using any_mode_latches[OF bye_counting_reaches nt, of "[\<lparr>content = ''ok bye''\<rparr>]"]
    by (simp add: bye_counting_def bye_latched_def bye_reason_def Let_def lower_def lower_char_def
          str_int_def str_nat.simps counter_def reached_def threshold_of_def newline_joined_def)
  moreover have "is_terminated bye_counting [\<lparr>content = ''ok''\<rparr>]
          = (bye_counting, Inr (False, None))"
    using any_mode_latches[OF bye_counting_reaches nt, of "[\<lparr>content = ''ok''\<rparr>]"]
    by (simp add: bye_counting_def Let_def lower_def lower_char_def
          counter_def reached_def threshold_of_def)
  moreover have "is_terminated (fresh [(''bye'', 1), (''stop'', 1)] False ANY)
                   [\<lparr>content = ''Stop. Bye!''\<rparr>]
          = (either_latched, Inr (True, Some either_reason))"
    using any_mode_latches[OF either_fresh_reaches nt', of "[\<lparr>content = ''Stop. Bye!''\<rparr>]"]
    by (simp add: fresh_def either_latched_def either_reason_def Let_def lower_def lower_char_def
          str_int_def str_nat.simps counter_def reached_def threshold_of_def newline_joined_def)
  moreover have "fst (is_terminated (fresh [(''bye'', 1), (''stop'', 1)] False ANY)
                        [\<lparr>content = ''Stop. Bye!''\<rparr>]) = either_latched"
    by (simp add: eval_defs either_latched_def either_reason_def)
  ultimately show ?thesis
    using bye_counting_reaches nt either_fresh_reaches nt' by (simp add: either_reason_def)
qed

text \<open>
  C2.  In the mode \<open>ALL\<close>, a call of \<open>is_terminated\<close> on an object that is not latched
  sets the latch, with the joined reason strings of all the words that have reached
  their thresholds, exactly when the number of watched words that have reached their
  thresholds after the update of the counters is the number of watched words; when
  some watched word is below its threshold, which is the other case, it returns
  (false, none) and the latch stays unset.
\<close>

theorem all_mode_latches:
  assumes "reaches wd cs ALL_mode calls s" and "\<not> terminated s"
  shows "let cnt = count_words cs (map fst wd) msgs (word_count_dict s);
             ws = filter (reached wd cnt) (map fst cnt);
             r = join_lines (map (\<lambda>w. reason_str w (counter cnt w) (threshold_of wd w)) ws);
             num_reached = length (filter (reached wd cnt) (map fst wd))
         in set ws = {w. reached wd cnt w} \<and> distinct ws \<and>
            termination_reason s = None \<and>
            (num_reached \<noteq> length wd \<longleftrightarrow> (\<exists>w \<in> fst ` set wd. \<not> reached wd cnt w)) \<and>
            is_terminated s msgs =
              (if num_reached = length wd
               then (s\<lparr>word_count_dict := cnt, terminated := True, termination_reason := Some r\<rparr>,
                     Inr (True, Some r))
               else (s\<lparr>word_count_dict := cnt\<rparr>, Inr (False, None)))"
proof -
  note r = reachesD(1-4)[OF assms(1)]
  from r(1) have cfg: "config_ok s" and cnts: "counts_ok s" and latch: "latch_ok s"
    by (simp_all add: state_ok_def)
  have pos: "\<forall>(w, t) \<in> set wd. 0 < t" and wd: "dict_ok wd"
    using cfg by (simp_all add: config_ok_def r(2))
  have cnt_eq: "count_words cs (map fst wd) msgs (word_count_dict s) = counted s msgs"
    by (simp add: counted_def r)
  have none: "termination_reason s = None"
    using latch assms(2) by (simp add: latch_ok_def)
  have cnt: "dict_ok (counted s msgs)" using counted_ok(1)[OF cnts] .
  have len: "length (filter (reached wd (counted s msgs)) (map fst wd))
             = length (reached_words wd (counted s msgs))"
    using pos wd cnt by (rule length_reached_watched)
  note all = reached_words_all_iff[OF pos wd cnt]
  have 2: "set (reached_words wd (counted s msgs)) = {w. reached wd (counted s msgs) w}"
    using pos by (rule set_reached_words)
  have 3: "distinct (reached_words wd (counted s msgs))"
    using cnt by (rule distinct_reached_words)
  have 5: "length (reached_words wd (counted s msgs)) \<noteq> length wd
           \<longleftrightarrow> (\<exists>w \<in> fst ` set wd. \<not> reached wd (counted s msgs) w)"
    using all by auto
  have 4: "is_terminated s msgs =
      (if length (reached_words wd (counted s msgs)) = length wd
       then (s\<lparr>word_count_dict := counted s msgs, terminated := True,
               termination_reason := Some (join_lines (reasons_of wd (counted s msgs)))\<rparr>,
             Inr (True, Some (join_lines (reasons_of wd (counted s msgs)))))
       else (s\<lparr>word_count_dict := counted s msgs\<rparr>, Inr (False, None)))"
    unfolding is_terminated_unlatched[OF cnts assms(2)]
    using all(2) by (auto simp add: Let_def r none)
  show ?thesis
    unfolding cnt_eq Let_def len reached_words_def[symmetric] reasons_of_def[symmetric]
    using 2 3 4 5 none by simp
qed

theorem all_mode_latches_witness:
  "reaches [(''bye'', 1), (''stop'', 1)] False ALL_mode [IsTerminated [\<lparr>content = ''STOP''\<rparr>]]
     both_counting \<and>
   \<not> terminated both_counting \<and>
   is_terminated both_counting [\<lparr>content = ''ok bye''\<rparr>]
     = (both_latched, Inr (True, Some both_reason)) \<and>
   is_terminated both_counting [\<lparr>content = ''stop it''\<rparr>]
     = (both_counting\<lparr>word_count_dict := [(''stop'', 2)]\<rparr>, Inr (False, None))"
proof -
  have nt: "\<not> terminated both_counting" by (simp add: both_counting_def)
  have "is_terminated both_counting [\<lparr>content = ''ok bye''\<rparr>]
          = (both_latched, Inr (True, Some both_reason))"
    using all_mode_latches[OF both_counting_reaches nt, of "[\<lparr>content = ''ok bye''\<rparr>]"]
    by (simp add: eval_defs)
  moreover have "is_terminated both_counting [\<lparr>content = ''stop it''\<rparr>]
          = (both_counting\<lparr>word_count_dict := [(''stop'', 2)]\<rparr>, Inr (False, None))"
    using all_mode_latches[OF both_counting_reaches nt, of "[\<lparr>content = ''stop it''\<rparr>]"]
    by (simp add: eval_defs)
  ultimately show ?thesis using both_counting_reaches nt by simp
qed

text \<open>
  C3.  A call of \<open>is_terminated\<close> on an object that is not latched adds to the running
  counter of every watched word the number of messages of the batch whose normalized
  content contains the normalized word: one for each such message, however often the
  word occurs in it, and nothing for the other messages.  The counter of a word that
  is not watched does not change.  The counters add up over the calls, and they are 0
  in a new object.
\<close>

theorem counters_count_messages:
  assumes "reaches wd cs m calls s" and "\<not> terminated s"
  shows "counter (word_count_dict (fst (is_terminated s msgs))) w =
           counter (word_count_dict s) w +
           (if w \<in> fst ` set wd
            then int (length (filter (\<lambda>msg. sublist (normalized cs w) (normalized cs (content msg)))
                                msgs))
            else 0)
         \<and> (calls = [] \<longrightarrow> counter (word_count_dict s) w = 0)"
proof -
  note r = reachesD(1-4)[OF assms(1)]
  from r(1) have cfg: "config_ok s" and cnts: "counts_ok s"
    by (simp_all add: state_ok_def)
  have wd: "dict_ok (words_dict s)" using cfg by (simp add: config_ok_def)
  have "word_count_dict (fst (is_terminated s msgs)) = counted s msgs"
    using cnts assms(2) by (rule unlatched_counts)
  moreover have "calls = [] \<Longrightarrow> counter (word_count_dict s) w = 0"
    using reachesD(6)[OF assms(1)] by (simp add: run_calls_def fresh_def counter_def)
  ultimately show ?thesis
    using counted_counter[OF wd, of w msgs] counted_counter_other[OF wd, of w msgs]
    by (simp add: r messages_with_def)
qed

theorem counters_count_messages_witness:
  "reaches [(''bye'', 2)] False ANY [] (fresh [(''bye'', 2)] False ANY) \<and>
   \<not> terminated (fresh [(''bye'', 2)] False ANY) \<and>
   counter (word_count_dict (fst (is_terminated (fresh [(''bye'', 2)] False ANY)
      [\<lparr>content = ''bye bye''\<rparr>, \<lparr>content = ''hello''\<rparr>]))) ''bye'' = 1 \<and>
   counter (word_count_dict (fst (is_terminated bye_counting
      [\<lparr>content = ''bye bye''\<rparr>, \<lparr>content = ''hello''\<rparr>]))) ''bye'' = 2"
proof -
  have nt: "\<not> terminated (fresh [(''bye'', 2)] False ANY)" by (simp add: fresh_def)
  have nt': "\<not> terminated bye_counting" by (simp add: bye_counting_def)
  have sub: "sublist ''bye'' ''bye bye''" "\<not> sublist ''bye'' ''hello''"
    unfolding str_in_sublist[symmetric] by simp_all
  have "counter (word_count_dict (fst (is_terminated (fresh [(''bye'', 2)] False ANY)
      [\<lparr>content = ''bye bye''\<rparr>, \<lparr>content = ''hello''\<rparr>]))) ''bye'' = 1"
    using counters_count_messages[OF bye_fresh_reaches nt,
        of "[\<lparr>content = ''bye bye''\<rparr>, \<lparr>content = ''hello''\<rparr>]" "''bye''"] sub
    by (simp add: normalized_def lower_def lower_char_def)
  moreover have "counter (word_count_dict (fst (is_terminated bye_counting
      [\<lparr>content = ''bye bye''\<rparr>, \<lparr>content = ''hello''\<rparr>]))) ''bye'' = 2"
    using counters_count_messages[OF bye_counting_reaches nt',
        of "[\<lparr>content = ''bye bye''\<rparr>, \<lparr>content = ''hello''\<rparr>]" "''bye''"] sub
    by (simp add: normalized_def lower_def lower_char_def bye_counting_def counter_def)
  ultimately show ?thesis using bye_fresh_reaches nt by simp
qed

text \<open>
  C4.  Once \<open>is_terminated\<close> has returned (true, \<open>r\<close>), leaving the object \<open>s'\<close>, any
  sequence of further calls of \<open>is_terminated\<close>, with any batches, leaves the object
  as it is, counters and latch, and every such call returns (true, \<open>r\<close>).  The latch
  is then set with the reason \<open>r\<close>, and \<open>reset\<close> clears it.
\<close>

theorem latch_is_sticky:
  assumes "is_terminated s msgs = (s', Inr (True, r))" and "Reset \<notin> set calls"
  shows "run_calls s' calls = s' \<and>
         is_terminated (run_calls s' calls) msgs' = (s', Inr (True, r)) \<and>
         terminated s' \<and> termination_reason s' = r \<and> \<not> terminated (reset s')"
proof -
  note t = is_terminated_True[OF assms(1)]
  have "run_calls s' calls = s'" using t(1) assms(2) by (rule run_calls_latched)
  then show ?thesis using t by (simp add: is_terminated_latched reset_def)
qed

theorem latch_is_sticky_witness:
  "is_terminated bye_counting [\<lparr>content = ''ok bye''\<rparr>] = (bye_latched, Inr (True, Some bye_reason)) \<and>
   Reset \<notin> set [IsTerminated [\<lparr>content = ''bye''\<rparr>], IsTerminated []] \<and>
   run_calls bye_latched [IsTerminated [\<lparr>content = ''bye''\<rparr>], IsTerminated []] = bye_latched \<and>
   is_terminated bye_latched [] = (bye_latched, Inr (True, Some bye_reason))"
proof -
  have step: "is_terminated bye_counting [\<lparr>content = ''ok bye''\<rparr>]
                = (bye_latched, Inr (True, Some bye_reason))"
    by (simp add: eval_defs)
  have calls: "Reset \<notin> set [IsTerminated [\<lparr>content = ''bye''\<rparr>], IsTerminated []]"
    by simp
  note sticky = latch_is_sticky[OF step calls, of "[]"]
  from sticky have same:
    "run_calls bye_latched [IsTerminated [\<lparr>content = ''bye''\<rparr>], IsTerminated []] = bye_latched"
    by (rule conjunct1)
  from sticky have "is_terminated bye_latched [] = (bye_latched, Inr (True, Some bye_reason))"
    unfolding same by (elim conjE)
  then show ?thesis
    using same step calls by simp
qed

text \<open>
  C5.  The constructor validates a dictionary at once.  It raises the error of the
  empty dictionary when there is no word; when some threshold is not positive, it
  raises the error whose message names the first such word, in the order of the
  dictionary, and its threshold; and when there is a word and every threshold is
  positive it returns the new object, whatever the mode is.  So it returns an object
  exactly when the dictionary is not empty and every threshold is positive.
\<close>

theorem construction_validates:
  assumes "dict_ok wd"
  shows "(wd = [] \<longrightarrow> init wd cs m = Inl (ValueError ''`words_dict` cannot be empty'')) \<and>
         (\<forall>pre w t post.
            wd = pre @ (w, t) # post \<and> (\<forall>(w', t') \<in> set pre. 0 < t') \<and> t \<le> 0 \<longrightarrow>
            init wd cs m =
              Inl (ValueError (''Threshold for word `'' @ w @ ''` should be larger than 0, got `''
                               @ str_int t @ ''`''))) \<and>
         (wd \<noteq> [] \<and> (\<forall>(w, t) \<in> set wd. 0 < t) \<longrightarrow>
            init wd cs m =
              Inr \<lparr>words_dict = wd, case_sensitive = cs, mode = m,
                   word_count_dict = [], terminated = False, termination_reason = None\<rparr>) \<and>
         ((\<exists>s. init wd cs m = Inr s) \<longleftrightarrow> wd \<noteq> [] \<and> (\<forall>(w, t) \<in> set wd. 0 < t))"
proof (intro conjI allI impI)
  show "init wd cs m = Inl (ValueError ''`words_dict` cannot be empty'')" if "wd = []"
    using that by (simp add: init_empty)
  show "init wd cs m =
          Inl (ValueError (''Threshold for word `'' @ w @ ''` should be larger than 0, got `''
                           @ str_int t @ ''`''))"
    if "wd = pre @ (w, t) # post \<and> (\<forall>(w', t') \<in> set pre. 0 < t') \<and> t \<le> 0" for pre w t post
    using init_first[OF assms, of pre w t post cs m] that by (simp add: threshold_message_def)
  show "init wd cs m =
          Inr \<lparr>words_dict = wd, case_sensitive = cs, mode = m,
               word_count_dict = [], terminated = False, termination_reason = None\<rparr>"
    if "wd \<noteq> [] \<and> (\<forall>(w, t) \<in> set wd. 0 < t)"
    using init_positive[OF assms, of cs m] that by (simp add: fresh_def)
  show "(\<exists>s. init wd cs m = Inr s) \<longleftrightarrow> wd \<noteq> [] \<and> (\<forall>(w, t) \<in> set wd. 0 < t)"
    using init_positive[OF assms, of cs m] init_Inr(2,3)[OF assms, of cs m] by blast
qed

theorem construction_validates_witness:
  "dict_ok [(''bye'', 1), (''stop'', - 12), (''end'', 0)] \<and>
   init [(''bye'', 1), (''stop'', - 12), (''end'', 0)] False ANY
     = Inl (ValueError ''Threshold for word `stop` should be larger than 0, got `-12`'') \<and>
   init [] False ANY = Inl (ValueError ''`words_dict` cannot be empty'') \<and>
   init [(''bye'', 2)] True (OtherMode ''TerminationMode.NONE'')
     = Inr \<lparr>words_dict = [(''bye'', 2)], case_sensitive = True,
            mode = OtherMode ''TerminationMode.NONE'',
            word_count_dict = [], terminated = False, termination_reason = None\<rparr>"
proof -
  have ok: "dict_ok [(''bye'', 1), (''stop'', - 12), (''end'', 0)]" "dict_ok []"
    "dict_ok [(''bye'', 2)]"
    by (simp_all add: dict_ok_def)
  have "init [(''bye'', 1), (''stop'', - 12), (''end'', 0)] False ANY
     = Inl (ValueError ''Threshold for word `stop` should be larger than 0, got `-12`'')"
    using construction_validates[OF ok(1), of False ANY, THEN conjunct2, THEN conjunct1,
        rule_format, of "[(''bye'', 1)]" "''stop''" "- 12" "[(''end'', 0)]"]
    by (simp add: str_int_def str_nat.simps)
  moreover have "init [] False ANY = Inl (ValueError ''`words_dict` cannot be empty'')"
    using construction_validates[OF ok(2), of False ANY] by simp
  moreover have "init [(''bye'', 2)] True (OtherMode ''TerminationMode.NONE'')
     = Inr \<lparr>words_dict = [(''bye'', 2)], case_sensitive = True,
            mode = OtherMode ''TerminationMode.NONE'',
            word_count_dict = [], terminated = False, termination_reason = None\<rparr>"
    using construction_validates[OF ok(3), of True "OtherMode ''TerminationMode.NONE''"] by simp
  ultimately show ?thesis using ok(1) by simp
qed

text \<open>
  C6.  With a mode that is neither \<open>ANY\<close> nor \<open>ALL\<close>, the constructor raises nothing
  and returns the object, and a call of \<open>is_terminated\<close> on an object that is not
  latched raises the error of the unsupported mode.  The object it leaves has the
  counters updated for the batch, as in every call on an object that is not latched,
  and its latch is unset.
\<close>

theorem unsupported_mode_raises:
  assumes "reaches wd cs m calls s" and "m \<noteq> ANY" and "m \<noteq> ALL_mode" and "\<not> terminated s"
  shows "init wd cs m =
           Inr \<lparr>words_dict = wd, case_sensitive = cs, mode = m,
                word_count_dict = [], terminated = False, termination_reason = None\<rparr> \<and>
         is_terminated s msgs =
           (s\<lparr>word_count_dict := count_words cs (map fst wd) msgs (word_count_dict s)\<rparr>,
            Inl (ValueError (''Unsupported termination mode `'' @ mode_str m @ ''`''))) \<and>
         (\<forall>w \<in> fst ` set wd.
            counter (word_count_dict (fst (is_terminated s msgs))) w =
              counter (word_count_dict s) w + int (messages_with cs w msgs)) \<and>
         \<not> terminated (fst (is_terminated s msgs)) \<and>
         termination_reason (fst (is_terminated s msgs)) = None"
proof -
  note r = reachesD(1-4)[OF assms(1)]
  from r(1) have cfg: "config_ok s" and cnts: "counts_ok s" and latch: "latch_ok s"
    by (simp_all add: state_ok_def)
  have wd: "dict_ok (words_dict s)" using cfg by (simp add: config_ok_def)
  from assms(2,3) obtain x where m: "m = OtherMode x" by (cases m) auto
  have none: "termination_reason s = None"
    using latch assms(4) by (simp add: latch_ok_def)
  have step: "is_terminated s msgs =
      (s\<lparr>word_count_dict := counted s msgs\<rparr>,
       Inl (ValueError (''Unsupported termination mode `'' @ mode_str m @ ''`'')))"
    unfolding is_terminated_unlatched[OF cnts assms(4)]
    by (simp add: Let_def r m)
  show ?thesis
    using reachesD(5)[OF assms(1)] counted_counter[OF wd, of _ msgs] assms(4) none
    by (simp add: step fresh_def) (simp add: counted_def r)
qed

theorem unsupported_mode_raises_witness:
  "reaches [(''bye'', 1)] False (OtherMode ''TerminationMode.NONE'') []
     (fresh [(''bye'', 1)] False (OtherMode ''TerminationMode.NONE'')) \<and>
   is_terminated (fresh [(''bye'', 1)] False (OtherMode ''TerminationMode.NONE''))
     [\<lparr>content = ''Bye''\<rparr>]
   = (\<lparr>words_dict = [(''bye'', 1)], case_sensitive = False,
       mode = OtherMode ''TerminationMode.NONE'',
       word_count_dict = [(''bye'', 1)], terminated = False, termination_reason = None\<rparr>,
      Inl (ValueError ''Unsupported termination mode `TerminationMode.NONE`''))"
proof -
  have nt: "\<not> terminated (fresh [(''bye'', 1)] False (OtherMode ''TerminationMode.NONE''))"
    by (simp add: fresh_def)
  show ?thesis
    using unsupported_mode_raises[OF other_fresh_reaches _ _ nt, of "[\<lparr>content = ''Bye''\<rparr>]"]
      other_fresh_reaches
    by (simp add: fresh_def lower_def lower_char_def)
qed

text \<open>
  C7.  A message adds one to the counter of a watched word when, for a terminator that
  is not case sensitive, the lower-cased word occurs in the lower-cased content, and,
  for a case sensitive one, the word occurs in the content, neither of them
  lower-cased.  So \<open>stop\<close> matches the content \<open>STOP now\<close> in the first case and not
  in the second.
\<close>

theorem case_sensitivity:
  assumes "reaches wd cs m calls s" and "\<not> terminated s" and "w \<in> fst ` set wd"
  shows "counter (word_count_dict (fst (is_terminated s [msg]))) w =
           counter (word_count_dict s) w +
           (if cs then (if sublist w (content msg) then 1 else 0)
            else (if sublist (lower w) (lower (content msg)) then 1 else 0))
         \<and> sublist (lower ''stop'') (lower ''STOP now'') \<and> \<not> sublist ''stop'' ''STOP now''"
proof -
  note r = reachesD(1-4)[OF assms(1)]
  from r(1) have cfg: "config_ok s" and cnts: "counts_ok s"
    by (simp_all add: state_ok_def)
  have wd: "dict_ok (words_dict s)" using cfg by (simp add: config_ok_def)
  have "word_count_dict (fst (is_terminated s [msg])) = counted s [msg]"
    using cnts assms(2) by (rule unlatched_counts)
  moreover have "sublist (lower ''stop'') (lower ''STOP now'')"
    unfolding str_in_sublist[symmetric] by (simp add: lower_def lower_char_def)
  moreover have "\<not> sublist ''stop'' ''STOP now''"
    unfolding str_in_sublist[symmetric] by simp
  ultimately show ?thesis
    using counted_counter[OF wd, of w "[msg]"] assms(3)
    by (simp add: r messages_with_def normalized_def)
qed

theorem case_sensitivity_witness:
  "reaches [(''stop'', 1)] False ANY [] (fresh [(''stop'', 1)] False ANY) \<and>
   reaches [(''stop'', 1)] True ANY [] (fresh [(''stop'', 1)] True ANY) \<and>
   ''stop'' \<in> fst ` set [(''stop'', 1 :: int)] \<and>
   counter (word_count_dict (fst (is_terminated (fresh [(''stop'', 1)] False ANY)
      [\<lparr>content = ''STOP now''\<rparr>]))) ''stop'' = 1 \<and>
   counter (word_count_dict (fst (is_terminated (fresh [(''stop'', 1)] True ANY)
      [\<lparr>content = ''STOP now''\<rparr>]))) ''stop'' = 0"
proof -
  have nt: "\<not> terminated (fresh [(''stop'', 1)] cs ANY)" for cs by (simp add: fresh_def)
  have w: "''stop'' \<in> fst ` set [(''stop'', 1 :: int)]" by simp
  have sub: "sublist ''stop'' ''stop now''" "\<not> sublist ''stop'' ''STOP now''"
    unfolding str_in_sublist[symmetric] by simp_all
  have "counter (word_count_dict (fst (is_terminated (fresh [(''stop'', 1)] False ANY)
      [\<lparr>content = ''STOP now''\<rparr>]))) ''stop'' = 1"
    using case_sensitivity[OF stop_fresh_reaches nt w, of False "\<lparr>content = ''STOP now''\<rparr>"] sub
    by (simp add: lower_def lower_char_def fresh_def counter_def)
  moreover have "counter (word_count_dict (fst (is_terminated (fresh [(''stop'', 1)] True ANY)
      [\<lparr>content = ''STOP now''\<rparr>]))) ''stop'' = 0"
    using case_sensitivity[OF stop_fresh_reaches nt w, of True "\<lparr>content = ''STOP now''\<rparr>"] sub
    by (simp add: fresh_def counter_def)
  ultimately show ?thesis using stop_fresh_reaches w by simp
qed

text \<open>
  C8.  \<open>reset\<close> clears the latch to (false, none) and empties the counter dictionary,
  so that every counter is 0, and changes nothing else: the object it leaves is the
  one the constructor returns for the same configuration, hence behaves as a new one.
  On a new object it changes nothing.
\<close>

theorem reset_restores_fresh:
  assumes "reaches wd cs m calls s"
  shows "reset s = \<lparr>words_dict = wd, case_sensitive = cs, mode = m,
                    word_count_dict = [], terminated = False, termination_reason = None\<rparr> \<and>
         init wd cs m = Inr (reset s) \<and>
         (\<forall>w. counter (word_count_dict (reset s)) w = 0) \<and>
         (calls = [] \<longrightarrow> reset s = s)"
proof -
  note r = reachesD[OF assms(1)]
  have eq: "reset s = fresh wd cs m"
    using r(2-4) by (cases s) (simp add: reset_def fresh_def)
  have "calls = [] \<Longrightarrow> s = fresh wd cs m"
    using r(6) by (simp add: run_calls_def)
  then have "calls = [] \<Longrightarrow> reset s = s"
    using eq by simp
  moreover have "counter (word_count_dict (reset s)) w = 0" for w
    by (simp add: eq fresh_def counter_def)
  moreover have "reset s = \<lparr>words_dict = wd, case_sensitive = cs, mode = m,
      word_count_dict = [], terminated = False, termination_reason = None\<rparr>"
    by (simp add: eq fresh_def)
  ultimately show ?thesis
    using r(5) by (simp add: eq)
qed

theorem reset_restores_fresh_witness:
  "reaches [(''bye'', 2)] False ANY
     [IsTerminated [\<lparr>content = ''Bye bye''\<rparr>], IsTerminated [\<lparr>content = ''ok bye''\<rparr>]]
     bye_latched \<and>
   terminated bye_latched \<and>
   init [(''bye'', 2)] False ANY = Inr (reset bye_latched) \<and>
   is_terminated (reset bye_latched) [\<lparr>content = ''Bye bye''\<rparr>] = (bye_counting, Inr (False, None))"
proof -
  have "reset bye_latched = fresh [(''bye'', 2)] False ANY"
    using reset_restores_fresh[OF bye_latched_reaches] by (simp add: fresh_def)
  moreover have "is_terminated (fresh [(''bye'', 2)] False ANY) [\<lparr>content = ''Bye bye''\<rparr>]
      = (bye_counting, Inr (False, None))"
    by (simp add: eval_defs)
  moreover have "terminated bye_latched" by (simp add: bye_latched_def)
  ultimately show ?thesis
    using reset_restores_fresh[OF bye_latched_reaches] bye_latched_reaches by simp
qed

text \<open>
  C9.  In every state of an object with the mode \<open>ANY\<close> or \<open>ALL\<close>, a call of
  \<open>is_terminated\<close> with no message changes neither a counter nor the latch, and
  returns the latch as it is.
\<close>

theorem empty_batch_is_noop:
  assumes "reaches wd cs m calls s" and "m = ANY \<or> m = ALL_mode"
  shows "is_terminated s [] = (s, Inr (terminated s, termination_reason s))"
proof (cases "terminated s")
  case True
  then show ?thesis by (simp add: is_terminated_latched)
next
  case False
  note r = reachesD(1-4)[OF assms(1)]
  from r(1) have cfg: "config_ok s" and cnts: "counts_ok s" and latch: "latch_ok s"
    by (simp_all add: state_ok_def)
  have pos: "\<forall>(w, t) \<in> set (words_dict s). 0 < t" and wd: "dict_ok (words_dict s)"
    using cfg by (simp_all add: config_ok_def)
  have cnt: "counted s [] = word_count_dict s"
    by (simp add: counted_def count_words_no_messages)
  have ok: "dict_ok (word_count_dict s)" using cnts by (simp add: counts_ok_def)
  from latch False have none: "termination_reason s = None" and agg: "\<not> aggregation_met s"
    by (simp_all add: latch_ok_def)
  from assms(2) show ?thesis
  proof
    assume "m = ANY"
    then have "reached_words (words_dict s) (word_count_dict s) = []"
      using agg reached_words_Nil_iff[OF pos, of "word_count_dict s"]
      by (simp add: aggregation_met_def r)
    then show ?thesis
      unfolding is_terminated_unlatched[OF cnts False]
      using False \<open>m = ANY\<close> by (simp add: Let_def cnt r)
  next
    assume "m = ALL_mode"
    then have "\<not> length (words_dict s) \<le> length (reached_words (words_dict s) (word_count_dict s))"
      using agg reached_words_all_iff(1)[OF pos wd ok]
      by (simp add: aggregation_met_def r)
    then show ?thesis
      unfolding is_terminated_unlatched[OF cnts False]
      using False \<open>m = ALL_mode\<close> by (simp add: Let_def cnt r)
  qed
qed

theorem empty_batch_is_noop_witness:
  "reaches [(''bye'', 1), (''stop'', 1)] False ALL_mode [IsTerminated [\<lparr>content = ''STOP''\<rparr>]]
     both_counting \<and>
   is_terminated both_counting [] = (both_counting, Inr (False, None)) \<and>
   is_terminated bye_latched [] = (bye_latched, Inr (True, Some bye_reason))"
proof -
  have "is_terminated both_counting [] = (both_counting, Inr (False, None))"
    using empty_batch_is_noop[OF both_counting_reaches] by (simp add: both_counting_def)
  moreover have "is_terminated bye_latched [] = (bye_latched, Inr (True, Some bye_reason))"
    using empty_batch_is_noop[OF bye_latched_reaches] by (simp add: bye_latched_def)
  ultimately show ?thesis using both_counting_reaches by simp
qed

text \<open>
  C10.  In every state of an object with the mode \<open>ANY\<close> or \<open>ALL\<close>, so after the
  construction and after every call of \<open>is_terminated\<close> and of \<open>reset\<close>: while the
  latch is not set, no watched word has reached its threshold under \<open>ANY\<close>, and some
  watched word has not reached its threshold under \<open>ALL\<close>; and when the latch is set,
  the reason is a string that is not empty.
\<close>

theorem latch_invariant:
  assumes "reaches wd cs m calls s" and "m = ANY \<or> m = ALL_mode"
  shows "(\<not> terminated s \<longrightarrow>
            (m = ANY \<longrightarrow> (\<forall>w \<in> fst ` set wd. \<not> reached wd (word_count_dict s) w)) \<and>
            (m = ALL_mode \<longrightarrow> (\<exists>w \<in> fst ` set wd. \<not> reached wd (word_count_dict s) w))) \<and>
         (terminated s \<longrightarrow> (\<exists>r. termination_reason s = Some r \<and> r \<noteq> []))"
proof -
  note r = reachesD(1-4)[OF assms(1)]
  from r(1) have latch: "latch_ok s" by (simp add: state_ok_def)
  have "\<forall>w \<in> fst ` set wd. \<not> reached wd (word_count_dict s) w"
    if "\<not> terminated s" and "m = ANY"
    using latch that by (simp add: latch_ok_def aggregation_met_def r)
  moreover have "\<exists>w \<in> fst ` set wd. \<not> reached wd (word_count_dict s) w"
    if "\<not> terminated s" and "m = ALL_mode"
    using latch that by (simp add: latch_ok_def aggregation_met_def r)
  moreover have "\<exists>r. termination_reason s = Some r \<and> r \<noteq> []" if "terminated s"
    using latch that by (simp add: latch_ok_def)
  ultimately show ?thesis by blast
qed

theorem latch_invariant_witness:
  "reaches [(''bye'', 2)] False ANY [IsTerminated [\<lparr>content = ''Bye bye''\<rparr>]] bye_counting \<and>
   \<not> terminated bye_counting \<and>
   \<not> reached [(''bye'', 2)] (word_count_dict bye_counting) ''bye'' \<and>
   terminated bye_latched \<and>
   (\<exists>r. termination_reason bye_latched = Some r \<and> r \<noteq> [])"
proof -
  have nt: "\<not> terminated bye_counting" and t: "terminated bye_latched"
    by (simp_all add: bye_counting_def bye_latched_def)
  have "\<not> reached [(''bye'', 2)] (word_count_dict bye_counting) ''bye''"
    using latch_invariant[OF bye_counting_reaches] nt by simp
  moreover have "\<exists>r. termination_reason bye_latched = Some r \<and> r \<noteq> []"
    using latch_invariant[OF bye_latched_reaches] t by simp
  ultimately show ?thesis using bye_counting_reaches nt t by simp
qed

end
